theory Spec2Isabelle
  imports Complex_Main
begin

section \<open>Text\<close>

text \<open>
  A Python \<open>str\<close> is a sequence of Unicode code points; it is modelled as the list of
  their numbers, so that \<open>length\<close> counts what \<open>len\<close> counts. \<open>lit\<close> turns an ASCII
  literal of the source into that form.
\<close>

type_synonym str = "nat list"

definition lit :: "string \<Rightarrow> str" where
  "lit cs = map of_char cs"

definition slice :: "str \<Rightarrow> nat \<Rightarrow> nat \<Rightarrow> str" where
  \<comment> \<open>\<open>s[i:j]\<close> for \<open>0 \<le> i\<close>, \<open>0 \<le> j\<close>\<close>
  "slice s i j = take (j - i) (drop i s)"

text \<open>
  \<open>str.splitlines()\<close>: the text is cut at every line boundary, the boundary itself is
  dropped, carriage return followed by line feed is one boundary, and a text that ends
  with a boundary has no empty last line. The boundaries of a \<open>str\<close> are
  LF, VT, FF, CR, FS, GS, RS, NEL, LS and PS.
\<close>

definition line_boundary :: "nat \<Rightarrow> bool" where
  "line_boundary c \<longleftrightarrow> c \<in> {10, 11, 12, 13, 28, 29, 30, 133, 8232, 8233}"

function splitlines :: "str \<Rightarrow> str list" where
  "splitlines [] = []"
| "splitlines (c # cs) =
     (let line = takeWhile (\<lambda>x. \<not> line_boundary x) (c # cs) in
      case dropWhile (\<lambda>x. \<not> line_boundary x) (c # cs) of
        [] \<Rightarrow> [line]
      | b # r \<Rightarrow>
          line # splitlines (case r of
                              [] \<Rightarrow> r
                            | d # ds \<Rightarrow> if b = 13 \<and> d = 10 then ds else r))"
  by pat_completeness auto
termination
proof (relation "measure length", goal_cases)
  case 1
  show ?case by simp
next
  case (2 c cs line b r)
  have "length (dropWhile (\<lambda>x. \<not> line_boundary x) (c # cs)) \<le> length (c # cs)"
    by (rule length_dropWhile_le)
  with 2 have "length r < length (c # cs)" by simp
  then show ?case by (auto split: list.splits)
qed

section \<open>The regular expression of parser.py\<close>

text \<open>
  The pattern of \<open>parse_log\<close> uses anchors, literals, greedy repetition of a character
  class, concatenation, a counted repetition and named groups. \<open>run s r (i, g)\<close> lists,
  in the order in which a backtracking matcher tries them, the states (position after
  the match, groups captured so far) in which \<open>r\<close> can match \<open>s\<close> from position \<open>i\<close>:
  a greedy repetition tries the longest run first. The pattern is compiled with
  \<open>re.MULTILINE\<close>, so \<open>^\<close> also matches after a line feed and \<open>$\<close> before one.
\<close>

datatype rx =
    Bol
  | Eol
  | Eps
  | Lit str
  | Cls "nat \<Rightarrow> bool" nat "nat option"
  | Cat rx rx
  | Rep nat rx
  | Grp string rx

type_synonym caps = "string \<rightharpoonup> nat \<times> nat"

fun weight :: "rx \<Rightarrow> nat" where
  "weight (Cat a b) = Suc (weight a + weight b)"
| "weight (Rep k r) = Suc (k + weight r)"
| "weight (Grp n r) = Suc (weight r)"
| "weight _ = 0"

function run :: "str \<Rightarrow> rx \<Rightarrow> nat \<times> caps \<Rightarrow> (nat \<times> caps) list" where
  "run s Bol (i, g) = (if i = 0 \<or> (i \<le> length s \<and> s ! (i - 1) = 10) then [(i, g)] else [])"
| "run s Eol (i, g) = (if i = length s \<or> (i < length s \<and> s ! i = 10) then [(i, g)] else [])"
| "run s Eps (i, g) = [(i, g)]"
| "run s (Lit l) (i, g) = (if take (length l) (drop i s) = l then [(i + length l, g)] else [])"
| "run s (Cls p lo hi) (i, g) =
     (let n = length (takeWhile p (drop i s));
          m = (case hi of None \<Rightarrow> n | Some h \<Rightarrow> min h n)
      in map (\<lambda>k. (i + k, g)) (rev [lo..<Suc m]))"
| "run s (Cat a b) (i, g) = concat (map (run s b) (run s a (i, g)))"
| "run s (Rep 0 r) (i, g) = [(i, g)]"
| "run s (Rep (Suc k) r) (i, g) = concat (map (run s (Rep k r)) (run s r (i, g)))"
| "run s (Grp n r) (i, g) = map (\<lambda>(j, g'). (j, g'(n \<mapsto> (i, j)))) (run s r (i, g))"
  by pat_completeness auto
termination
  by (relation "measure (\<lambda>(s, r, st). weight r)") auto

fun cats :: "rx list \<Rightarrow> rx" where
  "cats [] = Eps"
| "cats [r] = r"
| "cats (r # rs) = Cat r (cats rs)"

definition upper :: "nat \<Rightarrow> bool" where
  \<comment> \<open>\<open>[A-Z]\<close>\<close>
  "upper c \<longleftrightarrow> 65 \<le> c \<and> c \<le> 90"

definition not_bracket :: "nat \<Rightarrow> bool" where
  \<comment> \<open>\<open>[^\]]\<close>\<close>
  "not_bracket c \<longleftrightarrow> c \<noteq> 93"

definition not_quote :: "nat \<Rightarrow> bool" where
  \<comment> \<open>\<open>[^"]\<close>\<close>
  "not_quote c \<longleftrightarrow> c \<noteq> 34"

definition ascii_digit :: "nat \<Rightarrow> bool" where
  "ascii_digit c \<longleftrightarrow> 48 \<le> c \<and> c \<le> 57"

text \<open>
  In a \<open>str\<close> pattern \<open>\d\<close> matches every character of the Unicode category Nd, a table
  of the Python runtime. The model takes the test for that category as the parameter
  \<open>nd\<close>; \<open>ascii_digit\<close> is its restriction to ASCII.
\<close>

definition log_pattern :: "(nat \<Rightarrow> bool) \<Rightarrow> rx" where
  "log_pattern nd = cats
     [Bol,
      Grp ''ipaddress''
        (Cat (Cls nd 1 (Some 3)) (Rep 3 (Cat (Lit (lit ''.'')) (Cls nd 1 (Some 3))))),
      Lit (lit '' - - [''),
      Grp ''timestamp'' (Cls not_bracket 1 None),
      Lit (lit ''] '' @ [34]),
      Grp ''method'' (Cls upper 1 None),
      Lit (lit '' ''),
      Grp ''path'' (Cls not_quote 1 None),
      Lit (lit '' ''),
      Grp ''protocol'' (Cls not_quote 1 None),
      Lit (34 # lit '' ''),
      Grp ''status_code'' (Cls nd 3 (Some 3)),
      Lit (lit '' ''),
      Grp ''bytes_sent'' (Cls nd 1 None),
      Lit (lit '' '' @ [34]),
      Grp ''referrer'' (Cls not_quote 1 None),
      Lit (34 # lit '' '' @ [34]),
      Grp ''user_agent'' (Cls not_quote 1 None),
      Lit [34],
      Eol]"

section \<open>parser.py\<close>

text \<open>
  \<open>match.group(name)\<close> is the text of the group, or \<open>None\<close> for a group that took no
  part in the match. An entry of \<open>log_entries\<close> is the dictionary of the nine groups.
\<close>

definition group :: "str \<Rightarrow> caps \<Rightarrow> string \<Rightarrow> str option" where
  "group s g n = (case g n of None \<Rightarrow> None | Some (i, j) \<Rightarrow> Some (slice s i j))"

record log_entry =
  ipaddress :: "str option"
  timestamp :: "str option"
  http_method :: "str option"  \<comment> \<open>the key \<open>'method'\<close>\<close>
  path :: "str option"
  protocol :: "str option"
  status_code :: "str option"
  bytes_sent :: "str option"
  referrer :: "str option"
  user_agent :: "str option"

definition pattern_match :: "(nat \<Rightarrow> bool) \<Rightarrow> str \<Rightarrow> caps option" where
  \<comment> \<open>\<open>log_pattern.match(line)\<close>: the first way to match from position 0, if any\<close>
  "pattern_match nd line =
     (case run line (log_pattern nd) (0, Map.empty) of
        [] \<Rightarrow> None
      | (j, g) # _ \<Rightarrow> Some g)"

definition entry_of :: "str \<Rightarrow> caps \<Rightarrow> log_entry" where
  "entry_of line g =
     \<lparr>ipaddress = group line g ''ipaddress'',
      timestamp = group line g ''timestamp'',
      http_method = group line g ''method'',
      path = group line g ''path'',
      protocol = group line g ''protocol'',
      status_code = group line g ''status_code'',
      bytes_sent = group line g ''bytes_sent'',
      referrer = group line g ''referrer'',
      user_agent = group line g ''user_agent''\<rparr>"

definition parse_line :: "(nat \<Rightarrow> bool) \<Rightarrow> str \<Rightarrow> log_entry option" where
  \<comment> \<open>the body of the loop of \<open>parse_log\<close>: the entry of a matching line\<close>
  "parse_line nd line = map_option (entry_of line) (pattern_match nd line)"

definition parse_step ::
  "(nat \<Rightarrow> bool) \<Rightarrow> log_entry list \<times> str list \<Rightarrow> str \<Rightarrow> log_entry list \<times> str list" where
  "parse_step nd acc line =
     (case parse_line nd line of
        Some entry \<Rightarrow> (fst acc @ [entry], snd acc)
      | None \<Rightarrow> (fst acc, snd acc @ [line]))"

definition parse_log :: "(nat \<Rightarrow> bool) \<Rightarrow> str \<Rightarrow> log_entry list \<times> str list" where
  "parse_log nd log_content = foldl (parse_step nd) ([], []) (splitlines log_content)"

section \<open>The files a run sees\<close>

text \<open>
  The functions of database.py and etl\_apache.py act on the file system and on SQLite.
  The world of a run records what each library call observes at a file name:
  \<^item> \<open>mtimes\<close>: the result of \<open>os.stat\<close>, the modification time as \<open>os.path.getmtime\<close>
    reports it (a finite float, here the rational number it denotes), or \<open>None\<close> where
    the call raises \<open>OSError\<close>;
  \<^item> \<open>texts\<close>: what \<open>open(name, 'r').read()\<close> returns, or \<open>None\<close> where it raises;
  \<^item> \<open>stores\<close>: what SQLite finds in an existing file;
  \<^item> \<open>creatable\<close>: whether SQLite can create the file where none exists;
  \<^item> \<open>clock\<close>: the time the file system stamps on a file written during the run.
  A table is the list of its rows in the order of insertion (the surrogate \<open>id\<close> of a
  row is its position), or \<open>None\<close> while the table does not exist. A row of \<open>logs\<close> is
  the tuple of the nine values bound by the \<open>INSERT\<close>, kept as bound.
\<close>

type_synonym fname = string

datatype exn = OSError | OperationalError | DatabaseError | AttributeError

record error_row =
  raw_line :: str
  error_message :: str

record store =
  logs :: "log_entry list option"
  errors :: "error_row list option"

datatype dbfile =
    CannotOpen    \<comment> \<open>\<open>sqlite3.connect\<close> raises \<open>sqlite3.OperationalError\<close>\<close>
  | NotADatabase  \<comment> \<open>the file opens, every statement raises \<open>sqlite3.DatabaseError\<close>\<close>
  | Db store

record world =
  mtimes :: "fname \<Rightarrow> rat option"
  texts :: "fname \<Rightarrow> str option"
  stores :: "fname \<Rightarrow> dbfile"
  creatable :: "fname \<Rightarrow> bool"
  clock :: rat

type_synonym conn = fname

definition empty_store :: store where
  "empty_store = \<lparr>logs = None, errors = None\<rparr>"

definition write_db :: "world \<Rightarrow> conn \<Rightarrow> store \<Rightarrow> world" where
  \<comment> \<open>a statement that changes the database file\<close>
  "write_db w c st = w\<lparr>mtimes := (mtimes w)(c \<mapsto> clock w), stores := (stores w)(c := Db st)\<rparr>"

definition sqlite3_connect :: "world \<Rightarrow> fname \<Rightarrow> exn + world \<times> conn" where
  \<comment> \<open>\<open>sqlite3.connect\<close>: opens the file, and creates an empty database where there is none\<close>
  "sqlite3_connect w db_file =
     (case mtimes w db_file of
        None \<Rightarrow>
          if creatable w db_file then Inr (write_db w db_file empty_store, db_file)
          else Inl OperationalError
      | Some t \<Rightarrow>
          (case stores w db_file of
             CannotOpen \<Rightarrow> Inl OperationalError
           | _ \<Rightarrow> Inr (w, db_file)))"

definition select_logs :: "world \<Rightarrow> conn \<Rightarrow> exn + log_entry list" where
  \<comment> \<open>the rows a \<open>SELECT ... FROM logs\<close> reads, or the exception of \<open>execute\<close>\<close>
  "select_logs w c =
     (case stores w c of
        CannotOpen \<Rightarrow> Inl OperationalError
      | NotADatabase \<Rightarrow> Inl DatabaseError
      | Db st \<Rightarrow> (case logs st of None \<Rightarrow> Inl OperationalError | Some rows \<Rightarrow> Inr rows))"

section \<open>database.py\<close>

definition create_connection :: "world \<Rightarrow> fname \<Rightarrow> world \<times> conn option" where
  \<comment> \<open>\<open>except sqlite3.Error\<close>: the error is printed and \<open>None\<close> is returned\<close>
  "create_connection w db_file =
     (case sqlite3_connect w db_file of
        Inr (w', c) \<Rightarrow> (w', Some c)
      | Inl e \<Rightarrow> (w, None))"

definition create_table :: "world \<Rightarrow> conn \<Rightarrow> world" where
  \<comment> \<open>two \<open>CREATE TABLE IF NOT EXISTS\<close> and a commit; \<open>sqlite3.Error\<close> is caught and printed\<close>
  "create_table w c =
     (case stores w c of
        Db st \<Rightarrow>
          if logs st \<noteq> None \<and> errors st \<noteq> None then w
          else write_db w c
                 \<lparr>logs = Some (case logs st of None \<Rightarrow> [] | Some rows \<Rightarrow> rows),
                  errors = Some (case errors st of None \<Rightarrow> [] | Some rows \<Rightarrow> rows)\<rparr>
      | _ \<Rightarrow> w)"

definition insert_log_entries :: "world \<Rightarrow> conn \<Rightarrow> log_entry list \<Rightarrow> exn + world" where
  "insert_log_entries w c entries =
     (if entries = [] then Inr w
      else case stores w c of
             CannotOpen \<Rightarrow> Inl OperationalError
           | NotADatabase \<Rightarrow> Inl DatabaseError
           | Db st \<Rightarrow>
               (case logs st of
                  None \<Rightarrow> Inl OperationalError
                | Some rows \<Rightarrow> Inr (write_db w c (st\<lparr>logs := Some (rows @ entries)\<rparr>))))"

definition error_row_of :: "str \<Rightarrow> error_row" where
  \<comment> \<open>\<open>(str(error), '')\<close> for an entry that is a line of text, as \<open>parse_log\<close> returns them\<close>
  "error_row_of line = \<lparr>raw_line = line, error_message = []\<rparr>"

definition insert_error_entries :: "world \<Rightarrow> conn \<Rightarrow> str list \<Rightarrow> exn + world" where
  "insert_error_entries w c error_entries =
     (if error_entries = [] then Inr w
      else case stores w c of
             CannotOpen \<Rightarrow> Inl OperationalError
           | NotADatabase \<Rightarrow> Inl DatabaseError
           | Db st \<Rightarrow>
               (case errors st of
                  None \<Rightarrow> Inl OperationalError
                | Some rows \<Rightarrow>
                    Inr (write_db w c (st\<lparr>errors := Some (rows @ map error_row_of error_entries)\<rparr>))))"

definition getmtime :: "world \<Rightarrow> fname \<Rightarrow> exn + rat" where
  "getmtime w p = (case mtimes w p of None \<Rightarrow> Inl OSError | Some t \<Rightarrow> Inr t)"

definition is_db_up_to_date :: "world \<Rightarrow> fname \<Rightarrow> fname \<Rightarrow> bool" where
  \<comment> \<open>\<open>except Exception: return False\<close>\<close>
  "is_db_up_to_date w db_path log_file_path =
     (case getmtime w db_path of
        Inl e \<Rightarrow> False
      | Inr db_mtime \<Rightarrow>
          (case getmtime w log_file_path of
             Inl e \<Rightarrow> False
           | Inr log_mtime \<Rightarrow> db_mtime \<ge> log_mtime))"

definition count_logs :: "world \<Rightarrow> conn option \<Rightarrow> exn + nat" where
  \<comment> \<open>the \<open>try\<close> block of \<open>is_db_empty\<close>: \<open>None.cursor()\<close> raises \<open>AttributeError\<close>\<close>
  "count_logs w conn =
     (case conn of
        None \<Rightarrow> Inl AttributeError
      | Some c \<Rightarrow> (case select_logs w c of Inl e \<Rightarrow> Inl e | Inr rows \<Rightarrow> Inr (length rows)))"

definition is_db_empty :: "world \<Rightarrow> conn option \<Rightarrow> bool" where
  \<comment> \<open>\<open>except Exception: return True\<close>\<close>
  "is_db_empty w conn = (case count_logs w conn of Inl e \<Rightarrow> True | Inr count \<Rightarrow> count = 0)"

section \<open>summarizer.py\<close>

text \<open>
  \<open>GROUP BY key\<close> with \<open>COUNT(*)\<close> gives one row for each value of the key, with the number
  of rows that have it. SQL fixes neither the order of the groups nor, under
  \<open>ORDER BY count DESC\<close>, the order of groups with equal counts; the model lists the
  groups by the last row of each and sorts stably.
\<close>

definition count_for :: "(log_entry \<Rightarrow> 'k) \<Rightarrow> log_entry list \<Rightarrow> 'k \<Rightarrow> nat" where
  "count_for key rows k = length (filter (\<lambda>r. key r = k) rows)"

definition group_count :: "(log_entry \<Rightarrow> 'k) \<Rightarrow> log_entry list \<Rightarrow> ('k \<times> nat) list" where
  "group_count key rows = map (\<lambda>k. (k, count_for key rows k)) (remdups (map key rows))"

definition top10 :: "('k \<times> nat) list \<Rightarrow> ('k \<times> nat) list" where
  \<comment> \<open>\<open>ORDER BY count DESC LIMIT 10\<close>\<close>
  "top10 gs = take 10 (sort_key (\<lambda>(k, n). - int n) gs)"

record summary =
  top_endpoints :: "(str option \<times> nat) list"
  status_code_distribution :: "(str option \<times> nat) list"
  top_client_ips :: "(str option \<times> nat) list"

definition summarize_log :: "world \<Rightarrow> fname \<Rightarrow> exn + world \<times> summary option" where
  "summarize_log w db_file =
     (case create_connection w db_file of
        (w', None) \<Rightarrow> Inr (w', None)
      | (w', Some c) \<Rightarrow>
          (case select_logs w' c of
             Inl e \<Rightarrow> Inl e
           | Inr rows \<Rightarrow>
               Inr (w', Some \<lparr>top_endpoints = top10 (group_count path rows),
                               status_code_distribution = group_count status_code rows,
                               top_client_ips = top10 (group_count ipaddress rows)\<rparr>)))"

section \<open>etl\_apache.py\<close>

definition extract_log :: "world \<Rightarrow> fname \<Rightarrow> exn + str" where
  \<comment> \<open>\<open>extract\<close> of the source: the content of the file, or the exception, raised again\<close>
  "extract_log w log_file = (case texts w log_file of None \<Rightarrow> Inl OSError | Some content \<Rightarrow> Inr content)"

definition transform :: "(nat \<Rightarrow> bool) \<Rightarrow> str \<Rightarrow> log_entry list \<times> str list" where
  "transform nd log_content = parse_log nd log_content"

definition load :: "world \<Rightarrow> log_entry list \<Rightarrow> str list \<Rightarrow> fname \<Rightarrow> exn + world" where
  \<comment> \<open>the statements write to the world as they run, so \<open>commit\<close> and \<open>close\<close> add nothing;
      an exception of an insert leaves \<open>load\<close> before the commit, and no world is returned\<close>
  "load w parsed_entries error_entries db_file =
     (case create_connection w db_file of
        (w1, Some c) \<Rightarrow>
          (case insert_log_entries (create_table w1 c) c parsed_entries of
             Inl e \<Rightarrow> Inl e
           | Inr w2 \<Rightarrow> insert_error_entries w2 c error_entries)
      | (w1, None) \<Rightarrow> Inr w1)"

text \<open>
  \<open>run_etl_if_needed\<close> logs one of three messages, which tell the branch it took:
  the skip of its first \<open>if\<close>, the skip of its second \<open>if\<close>, or "Running ETL process...".
  The result is that message together with the outcome of the run.
\<close>

datatype etl_log = SkippedFirstRun | Skipped | RunningEtl

definition run_etl :: "(nat \<Rightarrow> bool) \<Rightarrow> world \<Rightarrow> fname \<Rightarrow> fname \<Rightarrow> exn + world" where
  \<comment> \<open>the last four statements of \<open>run_etl_if_needed\<close>\<close>
  "run_etl nd w input_path db_file =
     (case extract_log w input_path of
        Inl e \<Rightarrow> Inl e
      | Inr log_content \<Rightarrow>
          (case transform nd log_content of
             (parsed_entries, error_entries) \<Rightarrow> load w parsed_entries error_entries db_file))"

definition run_etl_if_needed ::
  "(nat \<Rightarrow> bool) \<Rightarrow> world \<Rightarrow> fname \<Rightarrow> fname \<Rightarrow> bool \<Rightarrow> etl_log \<times> (exn + world)" where
  "run_etl_if_needed nd w input_path db_file first_run =
     (let db_exists = (mtimes w db_file \<noteq> None);
          db_up_to_date = (if db_exists then is_db_up_to_date w db_file input_path else False);
          (w1, db_empty) =
             (if db_exists
              then (case create_connection w db_file of (w', conn) \<Rightarrow> (w', is_db_empty w' conn))
              else (w, True))
      in if first_run \<and> db_exists \<and> db_up_to_date \<and> \<not> db_empty then (SkippedFirstRun, Inr w1)
         else if \<not> first_run \<and> db_exists \<and> db_up_to_date \<and> \<not> db_empty then (Skipped, Inr w1)
         else (RunningEtl, run_etl nd w1 input_path db_file))"

section \<open>The canonical form of a line\<close>

text \<open>
  The grammar of the specification, as the text it stands for: the nine fields of an
  entry joined by the fixed separators
  \<^verbatim>\<open>IP " - - [" TIMESTAMP "] \"" METHOD " " PATH " " PROTOCOL "\" " STATUS " " BYTES " \"" REFERRER "\" \"" USER_AGENT "\""\<close>.
  A field that is \<open>None\<close> has no text, and neither has the line.
\<close>

definition opt_app :: "str option \<Rightarrow> str option \<Rightarrow> str option" where
  "opt_app a b = (case a of None \<Rightarrow> None | Some x \<Rightarrow> map_option ((@) x) b)"


section \<open>Shape of a pattern\<close>

text \<open>
  Notions used to reason about \<open>run\<close>: the names of the groups of a pattern, the least
  number of characters it takes, the patterns that are a sequence of literals, anchors
  and groups without inner groups (\<open>skel\<close>), the groups of such a pattern with the
  least length of each, the text such a pattern stands for once its groups are
  captured (\<open>pieces\<close>), and the patterns that end with \<open>$\<close>.
\<close>

fun names :: "rx \<Rightarrow> string list" where
  "names (Grp n r) = n # names r"
| "names (Cat a b) = names a @ names b"
| "names (Rep k r) = names r"
| "names _ = []"

fun minlen :: "rx \<Rightarrow> nat" where
  "minlen (Lit l) = length l"
| "minlen (Cls p lo hi) = lo"
| "minlen (Cat a b) = minlen a + minlen b"
| "minlen (Rep k r) = k * minlen r"
| "minlen (Grp n r) = minlen r"
| "minlen _ = 0"

fun skel :: "rx \<Rightarrow> bool" where
  "skel (Cat a b) = (skel a \<and> skel b \<and> set (names a) \<inter> set (names b) = {})"
| "skel (Grp n r) = (names r = [])"
| "skel (Cls p lo hi) = False"
| "skel (Rep k r) = False"
| "skel _ = True"

fun grps :: "rx \<Rightarrow> (string \<times> nat) list" where
  "grps (Grp n r) = [(n, minlen r)]"
| "grps (Cat a b) = grps a @ grps b"
| "grps _ = []"



section \<open>Counting the lines of a text\<close>

text \<open>
  \<open>count_lines B s\<close> counts the lines of \<open>s\<close> from the text alone, when the characters
  that satisfy \<open>B\<close> end a line: every line ending counts once, carriage return followed
  by line feed is one ending, and characters after the last ending are one more line.
  The specification speaks of platform line endings, that is line feed, carriage
  return, or both in that order: \<open>number_of_lines\<close> is the count for those.
\<close>

fun count_lines :: "(nat \<Rightarrow> bool) \<Rightarrow> str \<Rightarrow> nat" where
  "count_lines B [] = 0"
| "count_lines B [c] = 1"
| "count_lines B (c # d # cs) =
     (if B c then
        (if c = 13 \<and> d = 10 then Suc (count_lines B cs) else Suc (count_lines B (d # cs)))
      else count_lines B (d # cs))"

definition platform_line_end :: "nat \<Rightarrow> bool" where
  "platform_line_end c \<longleftrightarrow> c = 10 \<or> c = 13"

definition number_of_lines :: "str \<Rightarrow> nat" where
  "number_of_lines s = count_lines platform_line_end s"

section \<open>Sample data\<close>

text \<open>The line of the scenario of the specification, its entry, and a text of two lines.\<close>

definition sample_line :: str where
  "sample_line =
     lit ''127.0.0.1 - - [10/Oct/2023:13:55:36 -0700] '' @ [34] @ lit ''GET /index.html HTTP/1.1''
       @ [34] @ lit '' 200 1024 '' @ [34] @ lit ''-'' @ [34] @ lit '' '' @ [34]
       @ lit ''curl/7.68.0'' @ [34]"

definition sample_entry :: log_entry where
  "sample_entry =
     \<lparr>ipaddress = Some (lit ''127.0.0.1''),
      timestamp = Some (lit ''10/Oct/2023:13:55:36 -0700''),
      http_method = Some (lit ''GET''),
      path = Some (lit ''/index.html''),
      protocol = Some (lit ''HTTP/1.1''),
      status_code = Some (lit ''200''),
      bytes_sent = Some (lit ''1024''),
      referrer = Some (lit ''-''),
      user_agent = Some (lit ''curl/7.68.0'')\<rparr>"

definition sample_text :: str where
  "sample_text = sample_line @ [10] @ lit ''not a valid log line''"

text \<open>
  A text that the grammar accepts as one line and that holds the line separator U+2028
  inside the user agent; and five worlds with the source file \<open>access.log\<close>: one
  without a store, one whose store \<open>logs.db\<close> is newer than the source and holds a row,
  one whose source was modified after the store, one whose store cannot be opened, and
  one whose store has both tables and no row.
\<close>

definition ls_head :: str where
  "ls_head = lit ''1.2.3.4 - - [t] '' @ [34] @ lit ''G / H'' @ [34] @ lit '' 200 5 '' @ [34]
       @ lit ''-'' @ [34] @ lit '' '' @ [34] @ lit ''c''"

definition ls_tail :: str where
  "ls_tail = lit ''d'' @ [34]"

definition ls_text :: str where
  "ls_text = ls_head @ [8232] @ ls_tail"

definition base_world :: world where
  "base_world =
     \<lparr>mtimes = (\<lambda>p. None)(''access.log'' \<mapsto> 1),
      texts = (\<lambda>p. None)(''access.log'' \<mapsto> sample_text),
      stores = (\<lambda>p. CannotOpen),
      creatable = (\<lambda>p. True),
      clock = 3\<rparr>"

definition fresh_world :: world where
  "fresh_world =
     base_world
       \<lparr>mtimes := (mtimes base_world)(''logs.db'' \<mapsto> 2),
        stores := (stores base_world)(''logs.db'' := Db \<lparr>logs = Some [sample_entry], errors = Some []\<rparr>)\<rparr>"

definition stale_world :: world where
  "stale_world = fresh_world\<lparr>mtimes := (mtimes fresh_world)(''access.log'' \<mapsto> 3)\<rparr>"

definition locked_world :: world where
  "locked_world = base_world\<lparr>mtimes := (mtimes base_world)(''logs.db'' \<mapsto> 2)\<rparr>"

definition empty_db_world :: world where
  "empty_db_world =
     base_world
       \<lparr>mtimes := (mtimes base_world)(''logs.db'' \<mapsto> 2),
        stores := (stores base_world)(''logs.db'' := Db \<lparr>logs = Some [], errors = Some []\<rparr>)\<rparr>"

section \<open>Properties of the matcher\<close>


lemma slice_self [simp]: "slice s i i = []"
  by (simp add: slice_def)


lemma run_bounds:
  "(j, g') \<in> set (run s r (i, g)) \<Longrightarrow> i \<le> length s \<Longrightarrow> i + minlen r \<le> j \<and> j \<le> length s"
proof (induction s r "(i, g)" arbitrary: i g j g' rule: run.induct)
  case (4 s l i g)
  then have eq: "take (length l) (drop i s) = l" and j: "j = i + length l"
    by (auto split: if_splits)
  from eq have "length (take (length l) (drop i s)) = length l" by simp
  then have "length l \<le> length s - i" by simp
  with j 4 show ?case by simp
next
  case (5 s p lo hi i g)
  have "length (takeWhile p (drop i s)) \<le> length s - i"
    using length_takeWhile_le [of p "drop i s"] by simp
  with 5 show ?case by (auto simp: Let_def split: option.splits)
next
  case (6 s a b i g)
  then obtain k g1 where a: "(k, g1) \<in> set (run s a (i, g))" and b: "(j, g') \<in> set (run s b (k, g1))"
    by auto
  from 6(1) [OF a] 6(4) have ka: "i + minlen a \<le> k \<and> k \<le> length s" by simp
  with 6(2) [OF a b] show ?case by simp
next
  case (8 s k r i g)
  then obtain m g1 where a: "(m, g1) \<in> set (run s r (i, g))" and b: "(j, g') \<in> set (run s (Rep k r) (m, g1))"
    by auto
  from 8(1) [OF a] 8(4) have ka: "i + minlen r \<le> m \<and> m \<le> length s" by simp
  with 8(2) [OF a b] show ?case by simp
next
  case (9 s n r i g)
  then obtain g1 where "(j, g1) \<in> set (run s r (i, g))" by auto
  with 9 show ?case by simp
qed (auto split: if_splits)

lemma run_frame:
  "(j, g') \<in> set (run s r (i, g)) \<Longrightarrow> n \<notin> set (names r) \<Longrightarrow> g' n = g n"
proof (induction s r "(i, g)" arbitrary: i g j g' rule: run.induct)
  case (6 s a b i g)
  then obtain k g1 where a: "(k, g1) \<in> set (run s a (i, g))" and b: "(j, g') \<in> set (run s b (k, g1))"
    by auto
  from 6(1) [OF a] 6(2) [OF a b] 6(4) show ?case by simp
next
  case (8 s k r i g)
  then obtain m g1 where a: "(m, g1) \<in> set (run s r (i, g))" and b: "(j, g') \<in> set (run s (Rep k r) (m, g1))"
    by auto
  from 8(1) [OF a] 8(2) [OF a b] 8(4) show ?case by simp
next
  case (9 s m r i g)
  then obtain g1 where g1: "(j, g1) \<in> set (run s r (i, g))" and g': "g' = g1(m \<mapsto> (i, j))" by auto
  from 9(1) [OF g1] 9(3) g' show ?case by simp
qed (auto simp: Let_def split: if_splits)




lemma run_groups:
  "skel r \<Longrightarrow> (j, g') \<in> set (run s r (i, g)) \<Longrightarrow> i \<le> length s \<Longrightarrow> (n, m) \<in> set (grps r)
     \<Longrightarrow> \<exists>a b. g' n = Some (a, b) \<and> a + m \<le> b \<and> b \<le> length s"
proof (induction r arbitrary: i g j g')
  case (Cat x y)
  from Cat.prems(2) obtain k g1
    where a: "(k, g1) \<in> set (run s x (i, g))" and b: "(j, g') \<in> set (run s y (k, g1))"
    by auto
  from run_bounds [OF a Cat.prems(3)] have ik: "k \<le> length s" by simp
  from Cat.prems(1) have sk: "skel x" "skel y" and dis: "set (names x) \<inter> set (names y) = {}"
    by simp_all
  have sub: "\<And>r. fst ` set (grps r) \<subseteq> set (names r)"
  proof -
    fix r :: rx show "fst ` set (grps r) \<subseteq> set (names r)" by (induction r) auto
  qed
  from Cat.prems(4) consider "(n, m) \<in> set (grps x)" | "(n, m) \<in> set (grps y)" by auto
  then show ?case
  proof cases
    case 1
    from Cat.IH(1) [OF sk(1) a Cat.prems(3) 1]
    obtain p q where pq: "g1 n = Some (p, q)" "p + m \<le> q" "q \<le> length s" by blast
    from 1 sub [of x] have "n \<in> set (names x)" by force
    with dis have "n \<notin> set (names y)" by auto
    from run_frame [OF b this] pq show ?thesis by simp
  next
    case 2
    from Cat.IH(2) [OF sk(2) b ik 2] show ?thesis .
  qed
next
  case (Grp k r)
  from Grp.prems(2) obtain g1 where g1: "(j, g1) \<in> set (run s r (i, g))" and g': "g' = g1(k \<mapsto> (i, j))"
    by auto
  from run_bounds [OF g1 Grp.prems(3)] Grp.prems(4) g' show ?case by simp
qed auto


lemma splitlines_no_boundary:
  "l \<in> set (splitlines s) \<Longrightarrow> c \<in> set l \<Longrightarrow> \<not> line_boundary c"
proof (induction s arbitrary: l rule: splitlines.induct)
  case 1
  then show ?case by simp
next
  case (2 x xs)
  let ?line = "takeWhile (\<lambda>x. \<not> line_boundary x) (x # xs)"
  have tw: "c \<in> set ?line \<Longrightarrow> \<not> line_boundary c"
    using set_takeWhileD [of c "\<lambda>x. \<not> line_boundary x" "x # xs"] by simp
  show ?case
  proof (cases "dropWhile (\<lambda>x. \<not> line_boundary x) (x # xs)")
    case Nil
    with 2 tw show ?thesis by (simp del: takeWhile.simps dropWhile.simps)
  next
    case (Cons b r)
    with 2 tw show ?thesis by (auto simp del: takeWhile.simps dropWhile.simps split: list.splits)
  qed
qed


lemma opt_app_simps [simp]:
  "opt_app (Some []) x = x"
  "opt_app (Some a) (Some b) = Some (a @ b)"
  "opt_app None x = None"
  by (cases x; simp add: opt_app_def)+

lemma skel_log_pattern: "skel (log_pattern nd)"
  by (simp add: log_pattern_def)



lemma pattern_match_run:
  "pattern_match nd line = Some g \<Longrightarrow> \<exists>j. (j, g) \<in> set (run line (log_pattern nd) (0, Map.empty))"
  by (auto simp: pattern_match_def split: list.splits)

lemma group_nonempty:
  assumes "(j, g) \<in> set (run s (log_pattern nd) (0, g0))"
    and "(n, m) \<in> set (grps (log_pattern nd))" and "0 < m"
  shows "\<exists>v. group s g n = Some v \<and> v \<noteq> []"
proof -
  from run_groups [OF skel_log_pattern assms(1) _ assms(2)]
  obtain a b where ab: "g n = Some (a, b)" "a + m \<le> b" "b \<le> length s" by auto
  with assms(3) have "slice s a b \<noteq> []" by (auto simp: slice_def)
  with ab show ?thesis by (simp add: group_def)
qed

lemma grps_log_pattern:
  "grps (log_pattern nd) =
     [(''ipaddress'', 7), (''timestamp'', 1), (''method'', 1), (''path'', 1), (''protocol'', 1),
      (''status_code'', 3), (''bytes_sent'', 1), (''referrer'', 1), (''user_agent'', 1)]"
  by (simp add: log_pattern_def lit_def eval_nat_numeral)


text \<open>
  C9. For every line that matches, each of the nine fields of the entry is present, is the
  text of its group in that one match, and is not empty.
\<close>

theorem parse_fields_present:
  assumes "parse_line nd line = Some e"
  shows "(\<exists>v. ipaddress e = Some v \<and> v \<noteq> []) \<and> (\<exists>v. timestamp e = Some v \<and> v \<noteq> [])
       \<and> (\<exists>v. http_method e = Some v \<and> v \<noteq> []) \<and> (\<exists>v. path e = Some v \<and> v \<noteq> [])
       \<and> (\<exists>v. protocol e = Some v \<and> v \<noteq> []) \<and> (\<exists>v. status_code e = Some v \<and> v \<noteq> [])
       \<and> (\<exists>v. bytes_sent e = Some v \<and> v \<noteq> []) \<and> (\<exists>v. referrer e = Some v \<and> v \<noteq> [])
       \<and> (\<exists>v. user_agent e = Some v \<and> v \<noteq> [])"
proof -
  from assms obtain g where g: "pattern_match nd line = Some g" and e: "e = entry_of line g"
    by (auto simp: parse_line_def)
  from pattern_match_run [OF g] obtain j
    where j: "(j, g) \<in> set (run line (log_pattern nd) (0, Map.empty))" ..
  have ne: "\<And>n m. (n, m) \<in> set (grps (log_pattern nd)) \<Longrightarrow> 0 < m
               \<Longrightarrow> \<exists>v. group line g n = Some v \<and> v \<noteq> []"
    by (rule group_nonempty [OF j])
  show ?thesis
    unfolding e entry_of_def
    by (simp add: ne [of _ 7] ne [of _ 1] ne [of _ 3] grps_log_pattern del: ex_simps)
qed

section \<open>Lines of a text\<close>

lemma parse_fold:
  "foldl (parse_step nd) (es, errs) ls =
     (es @ List.map_filter (parse_line nd) ls, errs @ filter (\<lambda>l. parse_line nd l = None) ls)"
proof (induction ls arbitrary: es errs)
  case Nil
  show ?case by simp
next
  case (Cons l ls)
  show ?case
  proof (cases "parse_line nd l")
    case None
    then have "parse_step nd (es, errs) l = (es, errs @ [l])"
      by (simp add: parse_step_def)
    with None show ?thesis by (simp add: Cons.IH)
  next
    case (Some e)
    then have "parse_step nd (es, errs) l = (es @ [e], errs)"
      by (simp add: parse_step_def)
    with Some show ?thesis by (simp add: Cons.IH)
  qed
qed

lemma length_map_filter_partition:
  "length (List.map_filter f xs) + length (filter (\<lambda>x. f x = None) xs) = length xs"
  by (induction xs) (auto split: option.splits)

lemma splitlines_boundary:
  "line_boundary c \<Longrightarrow>
     splitlines (c # cs) =
       [] # splitlines (case cs of [] \<Rightarrow> [] | d # ds \<Rightarrow> if c = 13 \<and> d = 10 then ds else cs)"
  by (simp add: Let_def split: list.splits)

lemma splitlines_nonempty: "splitlines (x # xs) \<noteq> []"
  by (simp add: Let_def split: list.splits)

lemma splitlines_plain:
  assumes "\<not> line_boundary c"
  shows "splitlines (c # x # xs) = (c # hd (splitlines (x # xs))) # tl (splitlines (x # xs))"
proof -
  let ?P = "\<lambda>x. \<not> line_boundary x"
  from assms have tw: "takeWhile ?P (c # x # xs) = c # takeWhile ?P (x # xs)"
    and dw: "dropWhile ?P (c # x # xs) = dropWhile ?P (x # xs)"
    by simp_all
  have L: "splitlines (c # x # xs) =
      (case dropWhile ?P (x # xs) of
         [] \<Rightarrow> [c # takeWhile ?P (x # xs)]
       | b # r \<Rightarrow> (c # takeWhile ?P (x # xs)) #
           splitlines (case r of [] \<Rightarrow> r | d # ds \<Rightarrow> if b = 13 \<and> d = 10 then ds else r))"
    by (simp only: splitlines.simps Let_def tw dw)
  have R: "splitlines (x # xs) =
      (case dropWhile ?P (x # xs) of
         [] \<Rightarrow> [takeWhile ?P (x # xs)]
       | b # r \<Rightarrow> takeWhile ?P (x # xs) #
           splitlines (case r of [] \<Rightarrow> r | d # ds \<Rightarrow> if b = 13 \<and> d = 10 then ds else r))"
    by (simp only: splitlines.simps Let_def)
  show ?thesis
    unfolding L R by (cases "dropWhile ?P (x # xs)") (simp_all only: list.case list.sel)
qed

lemma splitlines_crlf: "splitlines (13 # 10 # cs) = [] # splitlines cs"
  using splitlines_boundary [of 13 "10 # cs"] by (simp add: line_boundary_def del: splitlines.simps)

lemma splitlines_other:
  "line_boundary c \<Longrightarrow> \<not> (c = 13 \<and> d = 10) \<Longrightarrow> splitlines (c # d # cs) = [] # splitlines (d # cs)"
  using splitlines_boundary [of c "d # cs"] by (auto simp del: splitlines.simps)

lemma length_splitlines: "length (splitlines s) = count_lines line_boundary s"
proof (induction line_boundary s rule: count_lines.induct)
  case 1
  show ?case by simp
next
  case (2 c)
  show ?case by (simp add: Let_def)
next
  case (3 c d cs)
  show ?case
  proof (cases "line_boundary c")
    case True
    show ?thesis
    proof (cases "c = 13 \<and> d = 10")
      case cr: True
      from 3(1) [OF True cr] True cr show ?thesis
        by (simp add: splitlines_crlf del: splitlines.simps)
    next
      case other: False
      from 3(2) [OF True other] True other show ?thesis
        by (auto simp add: splitlines_other [OF True other] simp del: splitlines.simps)
    qed
  next
    case False
    have "length (splitlines (c # d # cs)) = length (splitlines (d # cs))"
      using splitlines_nonempty [of d cs]
      by (cases "splitlines (d # cs)") (simp_all add: splitlines_plain [OF False] del: splitlines.simps)
    with 3(3) [OF False] False show ?thesis by (simp del: splitlines.simps)
  qed
qed

lemma concat_splitlines: "concat (splitlines s) = filter (\<lambda>c. \<not> line_boundary c) s"
proof (induction line_boundary s rule: count_lines.induct)
  case 1
  show ?case by simp
next
  case (2 c)
  show ?case by (simp add: Let_def)
next
  case (3 c d cs)
  have lb: "line_boundary 10" by (simp add: line_boundary_def)
  show ?case
  proof (cases "line_boundary c")
    case True
    show ?thesis
    proof (cases "c = 13 \<and> d = 10")
      case cr: True
      from 3(1) [OF True cr] True cr lb show ?thesis
        by (simp add: splitlines_crlf del: splitlines.simps)
    next
      case other: False
      from 3(2) [OF True other] True show ?thesis
        by (simp only: splitlines_other [OF True other] concat.simps append_Nil filter.simps if_False
            not_True_eq_False)
    qed
  next
    case False
    have "concat (splitlines (c # d # cs)) = c # concat (splitlines (d # cs))"
      using splitlines_nonempty [of d cs]
      by (cases "splitlines (d # cs)") (simp_all add: splitlines_plain [OF False] del: splitlines.simps)
    with 3(3) [OF False] False show ?thesis by (simp del: splitlines.simps)
  qed
qed

lemma count_lines_cong:
  "(\<And>c. c \<in> set s \<Longrightarrow> B c = B' c) \<Longrightarrow> count_lines B s = count_lines B' s"
  by (induction B s rule: count_lines.induct) auto


section \<open>The pipeline\<close>

lemma freshness_skip:
  assumes "mtimes w d = Some tdb" "mtimes w i = Some tsrc" "tsrc \<le> tdb"
    and "stores w d = Db st" "logs st = Some rows" "rows \<noteq> []"
  shows "run_etl_if_needed nd w i d fr = (if fr then SkippedFirstRun else Skipped, Inr w)"
  using assms
  by (simp add: run_etl_if_needed_def is_db_up_to_date_def getmtime_def create_connection_def
      sqlite3_connect_def is_db_empty_def count_logs_def select_logs_def)

lemma freshness_open:
  "mtimes w d = Some t \<Longrightarrow> fst (create_connection w d) = w"
  by (simp add: create_connection_def sqlite3_connect_def split: dbfile.splits)

lemma freshness_run:
  assumes "\<not> (\<exists>tdb tsrc st rows. mtimes w d = Some tdb \<and> mtimes w i = Some tsrc \<and> tsrc \<le> tdb
              \<and> stores w d = Db st \<and> logs st = Some rows \<and> rows \<noteq> [])"
  shows "run_etl_if_needed nd w i d fr = (RunningEtl, run_etl nd w i d)"
proof (cases "mtimes w d")
  case None
  then show ?thesis by (simp add: run_etl_if_needed_def)
next
  case (Some tdb)
  with assms show ?thesis
    by (cases "stores w d"; cases "mtimes w i")
       (auto simp: run_etl_if_needed_def is_db_up_to_date_def getmtime_def create_connection_def
          sqlite3_connect_def is_db_empty_def count_logs_def select_logs_def
          split: option.splits)
qed

text \<open>
  C2. \<open>run_etl_if_needed\<close> skips the load exactly when the store file exists, its
  modification time is at least that of the source file, and the table \<open>logs\<close> has a
  row. A skip leaves the world as it was; in every other case the extract, transform and
  load steps run.
\<close>

theorem freshness_skips_iff:
  "(fst (run_etl_if_needed nd w i d fr) \<noteq> RunningEtl \<longleftrightarrow>
      (\<exists>tdb tsrc st rows. mtimes w d = Some tdb \<and> mtimes w i = Some tsrc \<and> tsrc \<le> tdb
          \<and> stores w d = Db st \<and> logs st = Some rows \<and> rows \<noteq> []))
   \<and> (fst (run_etl_if_needed nd w i d fr) \<noteq> RunningEtl \<longrightarrow>
         snd (run_etl_if_needed nd w i d fr) = Inr w)
   \<and> (fst (run_etl_if_needed nd w i d fr) = RunningEtl \<longrightarrow>
         snd (run_etl_if_needed nd w i d fr) = run_etl nd w i d)"
proof (cases "\<exists>tdb tsrc st rows. mtimes w d = Some tdb \<and> mtimes w i = Some tsrc \<and> tsrc \<le> tdb
          \<and> stores w d = Db st \<and> logs st = Some rows \<and> rows \<noteq> []")
  case True
  then obtain tdb tsrc st rows where h: "mtimes w d = Some tdb" "mtimes w i = Some tsrc" "tsrc \<le> tdb"
      "stores w d = Db st" "logs st = Some rows" "rows \<noteq> []" by blast
  from freshness_skip [OF h] True show ?thesis by simp
next
  case False
  from freshness_run [OF False] False show ?thesis by simp
qed


lemma fresh_world_facts:
  "mtimes fresh_world ''logs.db'' = Some 2" "mtimes fresh_world ''access.log'' = Some 1"
  "stores fresh_world ''logs.db'' = Db \<lparr>logs = Some [sample_entry], errors = Some []\<rparr>"
  "texts fresh_world ''access.log'' = Some sample_text"
  by (simp_all add: fresh_world_def base_world_def)

lemma stale_world_facts:
  "mtimes stale_world ''logs.db'' = Some 2" "mtimes stale_world ''access.log'' = Some 3"
  "stores stale_world ''logs.db'' = Db \<lparr>logs = Some [sample_entry], errors = Some []\<rparr>"
  "texts stale_world ''access.log'' = Some sample_text"
  by (simp_all add: stale_world_def fresh_world_def base_world_def)

lemma base_world_facts:
  "mtimes base_world ''logs.db'' = None" "mtimes base_world ''access.log'' = Some 1"
  "creatable base_world ''logs.db''" "clock base_world = 3"
  by (simp_all add: base_world_def)

lemma locked_world_facts:
  "mtimes locked_world ''logs.db'' = Some 2" "stores locked_world ''logs.db'' = CannotOpen"
  by (simp_all add: locked_world_def base_world_def)

text \<open>
  C2, witness: the store that is fresh and populated is skipped, the missing store and
  the store older than its source are loaded.
\<close>

theorem freshness_skips_iff_witness:
  "fst (run_etl_if_needed ascii_digit fresh_world ''access.log'' ''logs.db'' False) \<noteq> RunningEtl
   \<and> snd (run_etl_if_needed ascii_digit fresh_world ''access.log'' ''logs.db'' False) = Inr fresh_world
   \<and> fst (run_etl_if_needed ascii_digit base_world ''access.log'' ''logs.db'' False) = RunningEtl
   \<and> fst (run_etl_if_needed ascii_digit stale_world ''access.log'' ''logs.db'' False) = RunningEtl"
  using freshness_skips_iff [of ascii_digit fresh_world "''access.log''" "''logs.db''" False]
    freshness_skips_iff [of ascii_digit base_world "''access.log''" "''logs.db''" False]
    freshness_skips_iff [of ascii_digit stale_world "''access.log''" "''logs.db''" False]
  by (simp add: fresh_world_facts base_world_facts stale_world_facts)

text \<open>
  C3, counterexample: with \<open>first_run\<close> true and a store that is fresh and populated,
  the first \<open>if\<close> of \<open>run_etl_if_needed\<close> returns without loading.
\<close>

theorem first_run_skip_counterexample:
  "run_etl_if_needed ascii_digit fresh_world ''access.log'' ''logs.db'' True
     = (SkippedFirstRun, Inr fresh_world)"
proof -
  have le: "(1::rat) \<le> 2" by simp
  have st: "logs \<lparr>logs = Some [sample_entry], errors = Some []\<rparr> = Some [sample_entry]" by simp
  have ne: "[sample_entry] \<noteq> []" by simp
  from freshness_skip [OF fresh_world_facts(1) fresh_world_facts(2) le fresh_world_facts(3) st ne,
      of ascii_digit True]
  show ?thesis by simp
qed

text \<open>
  C3, as the code has it. With \<open>first_run\<close> true the load runs unless the store exists, is
  at least as recent as the source and has a row in \<open>logs\<close>; then it is skipped. The flag
  changes the message that is logged and nothing else: the decision and the outcome are
  those of a run without the flag.
\<close>

theorem first_run_decision:
  "(fst (run_etl_if_needed nd w i d True) = RunningEtl \<longleftrightarrow>
      \<not> (\<exists>tdb tsrc st rows. mtimes w d = Some tdb \<and> mtimes w i = Some tsrc \<and> tsrc \<le> tdb
          \<and> stores w d = Db st \<and> logs st = Some rows \<and> rows \<noteq> []))
   \<and> (fst (run_etl_if_needed nd w i d True) = RunningEtl \<longleftrightarrow>
        fst (run_etl_if_needed nd w i d False) = RunningEtl)
   \<and> snd (run_etl_if_needed nd w i d True) = snd (run_etl_if_needed nd w i d False)"
proof (cases "\<exists>tdb tsrc st rows. mtimes w d = Some tdb \<and> mtimes w i = Some tsrc \<and> tsrc \<le> tdb
          \<and> stores w d = Db st \<and> logs st = Some rows \<and> rows \<noteq> []")
  case True
  then obtain tdb tsrc st rows where h: "mtimes w d = Some tdb" "mtimes w i = Some tsrc" "tsrc \<le> tdb"
      "stores w d = Db st" "logs st = Some rows" "rows \<noteq> []" by blast
  from freshness_skip [OF h, of nd True] freshness_skip [OF h, of nd False] True show ?thesis by simp
next
  case False
  from freshness_run [OF False, of nd True] freshness_run [OF False, of nd False] False show ?thesis by simp
qed

text \<open>
  C3, witness: with the flag, the missing store is loaded and the fresh one is not.
\<close>

theorem first_run_decision_witness:
  "fst (run_etl_if_needed ascii_digit base_world ''access.log'' ''logs.db'' True) = RunningEtl
   \<and> fst (run_etl_if_needed ascii_digit fresh_world ''access.log'' ''logs.db'' True) \<noteq> RunningEtl"
  using first_run_decision [of ascii_digit base_world "''access.log''" "''logs.db''"]
    first_run_decision [of ascii_digit fresh_world "''access.log''" "''logs.db''"]
  by (simp add: fresh_world_facts base_world_facts)

text \<open>
  C8. A run with \<open>first_run\<close> against a store that is at least as recent as the source and
  has a row in \<open>logs\<close> takes the first skip and returns the world unchanged: no row is
  inserted into \<open>logs\<close> or \<open>errors\<close>.
\<close>

theorem first_run_fresh_no_inserts:
  assumes "mtimes w d = Some tdb" "mtimes w i = Some tsrc" "tsrc \<le> tdb"
    and "stores w d = Db st" "logs st = Some rows" "rows \<noteq> []"
  shows "run_etl_if_needed nd w i d True = (SkippedFirstRun, Inr w)"
  using freshness_skip [OF assms, of nd True] by simp

text \<open>
  C8, witness: the fresh and populated store.
\<close>

theorem first_run_fresh_no_inserts_witness:
  "mtimes fresh_world ''logs.db'' = Some 2 \<and> mtimes fresh_world ''access.log'' = Some 1
   \<and> (1::rat) \<le> 2
   \<and> stores fresh_world ''logs.db'' = Db \<lparr>logs = Some [sample_entry], errors = Some []\<rparr>
   \<and> run_etl_if_needed ascii_digit fresh_world ''access.log'' ''logs.db'' True
        = (SkippedFirstRun, Inr fresh_world)"
proof -
  have le: "(1::rat) \<le> 2" by simp
  have st: "logs \<lparr>logs = Some [sample_entry], errors = Some []\<rparr> = Some [sample_entry]" by simp
  have ne: "[sample_entry] \<noteq> []" by simp
  from first_run_fresh_no_inserts [OF fresh_world_facts(1) fresh_world_facts(2) le fresh_world_facts(3) st ne]
  show ?thesis by (simp add: fresh_world_facts)
qed

text \<open>
  C6. When \<open>os.path.getmtime\<close> raises for the store or for the source, \<open>is_db_up_to_date\<close>
  is false and the load runs. When the count query raises, \<open>is_db_empty\<close> is true, and in
  \<open>run_etl_if_needed\<close> the load runs.
\<close>

theorem stat_errors_conservative:
  "(getmtime w d = Inl e \<or> getmtime w i = Inl e \<longrightarrow>
       \<not> is_db_up_to_date w d i \<and> fst (run_etl_if_needed nd w i d fr) = RunningEtl)
   \<and> (count_logs w c = Inl e' \<longrightarrow> is_db_empty w c)
   \<and> (mtimes w d \<noteq> None \<and>
        count_logs (fst (create_connection w d)) (snd (create_connection w d)) = Inl e' \<longrightarrow>
          fst (run_etl_if_needed nd w i d fr) = RunningEtl)"
proof (intro conjI impI)
  assume a: "getmtime w d = Inl e \<or> getmtime w i = Inl e"
  then show "\<not> is_db_up_to_date w d i"
    by (auto simp: is_db_up_to_date_def split: sum.splits)
  from a have "mtimes w d = None \<or> mtimes w i = None"
    by (auto simp: getmtime_def split: option.splits)
  then have "\<not> (\<exists>tdb tsrc st rows. mtimes w d = Some tdb \<and> mtimes w i = Some tsrc \<and> tsrc \<le> tdb
          \<and> stores w d = Db st \<and> logs st = Some rows \<and> rows \<noteq> [])" by auto
  from freshness_run [OF this] show "fst (run_etl_if_needed nd w i d fr) = RunningEtl" by simp
next
  assume "count_logs w c = Inl e'"
  then show "is_db_empty w c" by (simp add: is_db_empty_def)
next
  assume a: "mtimes w d \<noteq> None \<and>
      count_logs (fst (create_connection w d)) (snd (create_connection w d)) = Inl e'"
  then obtain t where t: "mtimes w d = Some t" by auto
  from a freshness_open [OF t] have "count_logs w (snd (create_connection w d)) = Inl e'" by simp
  then have "\<not> (\<exists>st rows. stores w d = Db st \<and> logs st = Some rows)"
    using t
    by (auto simp: count_logs_def select_logs_def create_connection_def sqlite3_connect_def
        split: option.splits dbfile.splits sum.splits)
  then have "\<not> (\<exists>tdb tsrc st rows. mtimes w d = Some tdb \<and> mtimes w i = Some tsrc \<and> tsrc \<le> tdb
          \<and> stores w d = Db st \<and> logs st = Some rows \<and> rows \<noteq> [])" by blast
  from freshness_run [OF this] show "fst (run_etl_if_needed nd w i d fr) = RunningEtl" by simp
qed

text \<open>
  C6, witness: a missing store, and a store that cannot be opened, whose connection is
  \<open>None\<close>.
\<close>

theorem stat_errors_conservative_witness:
  "getmtime base_world ''logs.db'' = Inl OSError
   \<and> \<not> is_db_up_to_date base_world ''logs.db'' ''access.log''
   \<and> fst (run_etl_if_needed ascii_digit base_world ''access.log'' ''logs.db'' False) = RunningEtl
   \<and> count_logs locked_world None = Inl AttributeError
   \<and> is_db_empty locked_world None
   \<and> fst (run_etl_if_needed ascii_digit locked_world ''access.log'' ''logs.db'' False) = RunningEtl"
proof -
  have a: "getmtime base_world ''logs.db'' = Inl OSError"
    by (simp add: getmtime_def base_world_facts)
  have b: "count_logs locked_world None = Inl AttributeError"
    by (simp add: count_logs_def)
  have c: "count_logs (fst (create_connection locked_world ''logs.db''))
             (snd (create_connection locked_world ''logs.db'')) = Inl AttributeError"
    by (simp add: count_logs_def create_connection_def sqlite3_connect_def locked_world_facts)
  from stat_errors_conservative [of base_world "''logs.db''" OSError "''access.log''" ascii_digit False
        None AttributeError] a
    stat_errors_conservative [of locked_world "''logs.db''" OSError "''access.log''" ascii_digit False
        None AttributeError] b c
  show ?thesis by (simp add: locked_world_facts)
qed


lemma empty_db_world_facts:
  "mtimes empty_db_world ''logs.db'' = Some 2"
  "stores empty_db_world ''logs.db'' = Db \<lparr>logs = Some [], errors = Some []\<rparr>"
  by (simp_all add: empty_db_world_def base_world_def)

lemma connect_fails:
  "sqlite3_connect w p = Inl e \<Longrightarrow> create_connection w p = (w, None)"
  by (simp add: create_connection_def)

lemma connect_existing:
  "mtimes w p = Some t \<Longrightarrow> stores w p \<noteq> CannotOpen \<Longrightarrow> create_connection w p = (w, Some p)"
  by (simp add: create_connection_def sqlite3_connect_def split: dbfile.splits)

lemma connect_new:
  "mtimes w p = None \<Longrightarrow> creatable w p \<Longrightarrow> create_connection w p = (write_db w p empty_store, Some p)"
  by (simp add: create_connection_def sqlite3_connect_def)

lemma connect_some:
  "create_connection w p = (w', Some c) \<Longrightarrow> c = p \<and> (\<exists>r. sqlite3_connect w p = Inr r)"
  by (auto simp: create_connection_def sqlite3_connect_def split: sum.splits option.splits dbfile.splits if_splits)

text \<open>
  C7, counterexample: where SQLite cannot open the file, \<open>sqlite3.connect\<close> raises and
  \<open>create_connection\<close> catches the exception and returns \<open>None\<close>; it does not raise.
\<close>

theorem create_connection_counterexample:
  "sqlite3_connect locked_world ''logs.db'' = Inl OperationalError
   \<and> create_connection locked_world ''logs.db'' = (locked_world, None)"
  by (simp add: create_connection_def sqlite3_connect_def locked_world_facts)

text \<open>
  C7, as the code has it. When the file can be neither opened nor created,
  \<open>create_connection\<close> returns \<open>None\<close> and leaves the world as it was; it returns \<open>None\<close>
  in no other case. When the file does not exist and can be created, it returns a
  connection to a new database without tables.
\<close>

theorem create_connection_outcomes:
  "(sqlite3_connect w p = Inl e \<longrightarrow> create_connection w p = (w, None))
   \<and> (mtimes w p = None \<and> creatable w p \<longrightarrow>
         create_connection w p = (write_db w p empty_store, Some p)
         \<and> stores (write_db w p empty_store) p = Db \<lparr>logs = None, errors = None\<rparr>
         \<and> mtimes (write_db w p empty_store) p = Some (clock w))
   \<and> (snd (create_connection w p) = None \<longleftrightarrow> (\<exists>e. sqlite3_connect w p = Inl e))"
proof (intro conjI impI)
  assume "sqlite3_connect w p = Inl e"
  then show "create_connection w p = (w, None)" by (rule connect_fails)
next
  assume a: "mtimes w p = None \<and> creatable w p"
  then show "create_connection w p = (write_db w p empty_store, Some p)"
    by (simp add: connect_new)
next
  show "stores (write_db w p empty_store) p = Db \<lparr>logs = None, errors = None\<rparr>"
    by (simp add: write_db_def empty_store_def)
next
  show "mtimes (write_db w p empty_store) p = Some (clock w)"
    by (simp add: write_db_def)
next
  show "snd (create_connection w p) = None \<longleftrightarrow> (\<exists>e. sqlite3_connect w p = Inl e)"
    by (cases "sqlite3_connect w p") (auto simp: create_connection_def)
qed

text \<open>
  C7, witness: the store that cannot be opened and the store that does not exist yet.
\<close>

theorem create_connection_outcomes_witness:
  "create_connection locked_world ''logs.db'' = (locked_world, None)
   \<and> create_connection base_world ''logs.db'' = (write_db base_world ''logs.db'' empty_store, Some ''logs.db'')
   \<and> stores (write_db base_world ''logs.db'' empty_store) ''logs.db'' = Db \<lparr>logs = None, errors = None\<rparr>"
proof -
  have a: "sqlite3_connect locked_world ''logs.db'' = Inl OperationalError"
    by (simp add: sqlite3_connect_def locked_world_facts)
  from create_connection_outcomes [of locked_world "''logs.db''" OperationalError] a
    create_connection_outcomes [of base_world "''logs.db''" OperationalError]
  show ?thesis by (simp add: base_world_facts)
qed

lemma group_count_Nil [simp]: "group_count key [] = []"
  by (simp add: group_count_def)

lemma top10_Nil [simp]: "top10 [] = []"
  by (simp add: top10_def)

text \<open>
  C5, counterexample: the store that \<open>create_connection\<close> has just created is empty for
  \<open>is_db_empty\<close>, and \<open>summarize_log\<close> on it raises, since the table \<open>logs\<close> does not
  exist.
\<close>

theorem summarize_log_counterexample:
  "snd (create_connection base_world ''logs.db'') = Some ''logs.db''
   \<and> is_db_empty (fst (create_connection base_world ''logs.db'')) (snd (create_connection base_world ''logs.db''))
   \<and> summarize_log base_world ''logs.db'' = Inl OperationalError"
  by (simp add: summarize_log_def connect_new base_world_facts is_db_empty_def count_logs_def
      select_logs_def write_db_def empty_store_def)

text \<open>
  C5, as the code has it. On a store whose table \<open>logs\<close> exists and has no row,
  \<open>summarize_log\<close> returns three empty aggregates and leaves the world as it was. It
  returns no summary exactly when the store cannot be opened. When the store opens and
  the query on \<open>logs\<close> raises, \<open>summarize_log\<close> raises the same exception.
\<close>

theorem summarize_log_outcomes:
  "(mtimes w d = Some t \<and> stores w d = Db st \<and> logs st = Some [] \<longrightarrow>
       summarize_log w d =
         Inr (w, Some \<lparr>top_endpoints = [], status_code_distribution = [], top_client_ips = []\<rparr>))
   \<and> ((\<exists>w'. summarize_log w d = Inr (w', None)) \<longleftrightarrow> (\<exists>e. sqlite3_connect w d = Inl e))
   \<and> (snd (create_connection w d) = Some c \<and> select_logs (fst (create_connection w d)) c = Inl e'
        \<longrightarrow> summarize_log w d = Inl e')"
proof (intro conjI impI)
  assume a: "mtimes w d = Some t \<and> stores w d = Db st \<and> logs st = Some []"
  then have "create_connection w d = (w, Some d)" by (simp add: connect_existing)
  with a show "summarize_log w d =
         Inr (w, Some \<lparr>top_endpoints = [], status_code_distribution = [], top_client_ips = []\<rparr>)"
    by (simp add: summarize_log_def select_logs_def)
next
  show "(\<exists>w'. summarize_log w d = Inr (w', None)) \<longleftrightarrow> (\<exists>e. sqlite3_connect w d = Inl e)"
    by (cases "sqlite3_connect w d")
       (auto simp: summarize_log_def create_connection_def split: sum.splits)
next
  assume "snd (create_connection w d) = Some c \<and> select_logs (fst (create_connection w d)) c = Inl e'"
  then show "summarize_log w d = Inl e'"
    by (cases "create_connection w d") (simp add: summarize_log_def)
qed

text \<open>
  C5, witness: a store with empty tables, and a store that cannot be opened.
\<close>

theorem summarize_log_outcomes_witness:
  "summarize_log empty_db_world ''logs.db'' =
     Inr (empty_db_world, Some \<lparr>top_endpoints = [], status_code_distribution = [], top_client_ips = []\<rparr>)
   \<and> summarize_log locked_world ''logs.db'' = Inr (locked_world, None)"
proof -
  have a: "sqlite3_connect locked_world ''logs.db'' = Inl OperationalError"
    by (simp add: sqlite3_connect_def locked_world_facts)
  have b: "summarize_log locked_world ''logs.db'' = Inr (locked_world, None)"
    by (simp add: summarize_log_def connect_fails [OF a])
  from summarize_log_outcomes [of empty_db_world "''logs.db''" 2 "\<lparr>logs = Some [], errors = Some []\<rparr>"] b
  show ?thesis by (simp add: empty_db_world_facts)
qed










lemma sample_parse_line: "parse_line ascii_digit sample_line = Some sample_entry"
  by code_simp

lemma invalid_parse_line: "parse_line ascii_digit (lit ''not a valid log line'') = None"
  by code_simp

lemma sample_splitlines: "splitlines sample_text = [sample_line, lit ''not a valid log line'']"
  by (simp add: sample_text_def sample_line_def lit_def line_boundary_def)

lemma sample_parse_log:
  "parse_log ascii_digit sample_text = ([sample_entry], [lit ''not a valid log line''])"
  by (simp add: parse_log_def sample_splitlines parse_step_def sample_parse_line invalid_parse_line)



lemma parse_log_lengths:
  "length (fst (parse_log nd s)) + length (snd (parse_log nd s)) = length (splitlines s)"
  by (simp add: parse_log_def parse_fold length_map_filter_partition)

text \<open>
  C1, as the code has it. For every text, the two results of \<open>parse_log\<close> together have
  as many elements as the text has lines when a line ends at each boundary of
  \<open>str.splitlines\<close> (LF, VT, FF, CR, CR LF as one, FS, GS, RS, NEL, LS, PS). The entries
  are those of the matching lines and the error entries are the lines that do not match,
  both in the order of the text; the lines are the text without its boundaries. For a
  text whose only boundaries are LF and CR this is the number of lines of the
  specification. The empty text gives two empty lists.
\<close>

theorem parse_log_lines:
  "length (fst (parse_log nd s)) + length (snd (parse_log nd s)) = count_lines line_boundary s
   \<and> fst (parse_log nd s) = List.map_filter (parse_line nd) (splitlines s)
   \<and> snd (parse_log nd s) = filter (\<lambda>l. parse_line nd l = None) (splitlines s)
   \<and> concat (splitlines s) = filter (\<lambda>c. \<not> line_boundary c) s
   \<and> (\<forall>l \<in> set (splitlines s). \<forall>c \<in> set l. \<not> line_boundary c)
   \<and> ((\<forall>c \<in> set s. line_boundary c \<longrightarrow> c = 10 \<or> c = 13) \<longrightarrow>
        length (fst (parse_log nd s)) + length (snd (parse_log nd s)) = number_of_lines s)
   \<and> parse_log nd [] = ([], [])"
proof (intro conjI impI ballI)
  show "length (fst (parse_log nd s)) + length (snd (parse_log nd s)) = count_lines line_boundary s"
    by (simp add: parse_log_lengths length_splitlines)
  show "fst (parse_log nd s) = List.map_filter (parse_line nd) (splitlines s)"
    by (simp add: parse_log_def parse_fold)
  show "snd (parse_log nd s) = filter (\<lambda>l. parse_line nd l = None) (splitlines s)"
    by (simp add: parse_log_def parse_fold)
  show "concat (splitlines s) = filter (\<lambda>c. \<not> line_boundary c) s"
    by (rule concat_splitlines)
  show "parse_log nd [] = ([], [])"
    by (simp add: parse_log_def)
next
  fix l c assume "l \<in> set (splitlines s)" "c \<in> set l"
  then show "\<not> line_boundary c" by (rule splitlines_no_boundary)
next
  assume a: "\<forall>c \<in> set s. line_boundary c \<longrightarrow> c = 10 \<or> c = 13"
  have "count_lines line_boundary s = count_lines platform_line_end s"
  proof (rule count_lines_cong)
    fix c assume "c \<in> set s"
    with a show "line_boundary c = platform_line_end c"
      by (auto simp: platform_line_end_def line_boundary_def)
  qed
  then show "length (fst (parse_log nd s)) + length (snd (parse_log nd s)) = number_of_lines s"
    by (simp add: parse_log_lengths length_splitlines number_of_lines_def)
qed

text \<open>
  C1, witness: the sample text of two lines gives one entry and one error entry.
\<close>

theorem parse_log_lines_witness:
  "length (fst (parse_log ascii_digit sample_text)) + length (snd (parse_log ascii_digit sample_text))
     = number_of_lines sample_text
   \<and> number_of_lines sample_text = 2
   \<and> fst (parse_log ascii_digit sample_text) = [sample_entry]
   \<and> snd (parse_log ascii_digit sample_text) = [lit ''not a valid log line'']"
proof -
  have a: "\<forall>c \<in> set sample_text. line_boundary c \<longrightarrow> c = 10 \<or> c = 13"
    by (simp add: sample_text_def sample_line_def lit_def line_boundary_def)
  from parse_log_lines [of ascii_digit sample_text] a
  have "length (fst (parse_log ascii_digit sample_text)) + length (snd (parse_log ascii_digit sample_text))
     = number_of_lines sample_text" by blast
  then show ?thesis by (simp add: sample_parse_log)
qed

lemma ls_splitlines: "splitlines ls_text = [ls_head, ls_tail]"
  by (simp add: ls_text_def ls_head_def ls_tail_def lit_def line_boundary_def)

lemma ls_number_of_lines: "number_of_lines ls_text = 1"
  by (simp add: number_of_lines_def ls_text_def ls_head_def ls_tail_def lit_def platform_line_end_def)

lemma ls_whole_line: "parse_line ascii_digit ls_text \<noteq> None"
  by code_simp

text \<open>
  C1, counterexample: a text without LF or CR, which is one line for the specification
  and which the pattern matches as a whole, gives two records, because \<open>splitlines\<close> cuts
  it at U+2028.
\<close>

theorem parse_log_lines_counterexample:
  "number_of_lines ls_text = 1
   \<and> parse_line ascii_digit ls_text \<noteq> None
   \<and> length (fst (parse_log ascii_digit ls_text)) + length (snd (parse_log ascii_digit ls_text)) = 2"
  by (simp add: ls_number_of_lines ls_whole_line parse_log_lengths ls_splitlines)


text \<open>
  C9, witness: the sample line.
\<close>

theorem parse_fields_present_witness:
  "parse_line ascii_digit sample_line = Some sample_entry
   \<and> (\<exists>v. ipaddress sample_entry = Some v \<and> v \<noteq> [])
   \<and> (\<exists>v. user_agent sample_entry = Some v \<and> v \<noteq> [])"
  using parse_fields_present [OF sample_parse_line] sample_parse_line by simp


end
